theory Spec2Isabelle
  imports Complex_Main "HOL-Library.Word"
begin

section \<open>Exceptions\<close>

text \<open>
  What a C++ \<^verbatim>\<open>throw\<close> can raise, as far as the handlers of this code tell things apart:
  an object derived from \<^verbatim>\<open>std::exception\<close>, which carries the text that \<^verbatim>\<open>what()\<close>
  returns, or anything else. \<^verbatim>\<open>M_throw() << text\<close> (magnet/exception.hpp) raises an
  exception of the first kind whose message is the streamed text; the source location that
  the macro adds to the message is left out.
\<close>

datatype thrown = std_exception string | other_throw

definition M_throw :: "string \<Rightarrow> thrown" where
  "M_throw msg = std_exception msg"

fun what :: "thrown \<Rightarrow> string" where
  "what (std_exception msg) = msg"
| "what other_throw = []"

section \<open>Polynomials (magnet/math/polynomial.hpp)\<close>

text \<open>
  \<^verbatim>\<open>Polynomial<Order, double>\<close> is a \<^verbatim>\<open>std::array<double, Order+1>\<close>: the list of its
  \<open>Order + 1\<close> coefficients, lowest order first. The coefficients are read as real numbers,
  so every arithmetic operation is exact.
\<close>

type_synonym polynomial = "real list"

text \<open>
  \<^verbatim>\<open>operator()\<close>: Horner's scheme. The sum starts as the coefficient of index \<open>Order\<close> and
  takes the coefficients \<open>Order - 1\<close>, ..., \<open>0\<close> in turn.
\<close>

definition eval :: "polynomial \<Rightarrow> real \<Rightarrow> real" where
  "eval f x = foldl (\<lambda>sum c. sum * x + c) (last f) (rev (butlast f))"

text \<open>
  The constructor that lowers the order by one. It copies all coefficients but the last;
  when \<^verbatim>\<open>MAGNET_DEBUG\<close> is defined (the flag \<open>debug\<close>) it throws on a non-zero highest
  coefficient.
\<close>

definition lower :: "bool \<Rightarrow> polynomial \<Rightarrow> thrown + polynomial" where
  "lower debug poly =
     (if debug \<and> last poly \<noteq> 0
      then Inl (M_throw ''Trying to reduce the order of a polynomial with non-zero highest order coefficients!'')
      else Inr (butlast poly))"

subsection \<open>The promotion constructor\<close>

text \<open>
  A write to the coefficient array \<^verbatim>\<open>Base::operator[](i) = v\<close>. The array has as many
  elements as the list; a write at an index beyond them is undefined behaviour in C++ and is
  a fault of the model.
\<close>

datatype fault = out_of_bounds_write nat

definition store :: "nat \<Rightarrow> real \<Rightarrow> real list \<Rightarrow> fault + real list" where
  "store i v a = (if i < length a then Inr (a[i := v]) else Inl (out_of_bounds_write i))"

text \<open>The first loop: \<^verbatim>\<open>for (; i <= N; ++i) Base::operator[](i) = poly[i];\<close>. It returns the
  index it stopped at together with the array.\<close>

function copy_loop :: "nat \<Rightarrow> polynomial \<Rightarrow> nat \<Rightarrow> real list \<Rightarrow> fault + (nat \<times> real list)" where
  "copy_loop N poly i a =
     (if i \<le> N
      then (case store i (poly ! i) a of
              Inl e \<Rightarrow> Inl e
            | Inr a' \<Rightarrow> copy_loop N poly (i + 1) a')
      else Inr (i, a))"
  by pat_completeness auto
termination
  by (relation "measure (\<lambda>(N, poly, i, a). Suc N - i)") auto

declare copy_loop.simps [simp del]

text \<open>The second loop: \<^verbatim>\<open>for (; i <= Order + 1; ++i) Base::operator[](i) = Real();\<close>.\<close>

function zero_loop :: "nat \<Rightarrow> nat \<Rightarrow> real list \<Rightarrow> fault + real list" where
  "zero_loop Order i a =
     (if i \<le> Order + 1
      then (case store i 0 a of
              Inl e \<Rightarrow> Inl e
            | Inr a' \<Rightarrow> zero_loop Order (i + 1) a')
      else Inr a)"
  by pat_completeness auto
termination
  by (relation "measure (\<lambda>(Order, i, a). Order + 2 - i)") auto

declare zero_loop.simps [simp del]

text \<open>
  \<^verbatim>\<open>Polynomial<Order>::Polynomial(const Polynomial<N>& poly)\<close>. The base array is not
  initialised by the constructor, so its \<open>Order + 1\<close> elements start with whatever values
  \<open>a0\<close> they happen to hold.
\<close>

definition promote :: "nat \<Rightarrow> nat \<Rightarrow> polynomial \<Rightarrow> real list \<Rightarrow> fault + polynomial" where
  "promote Order N poly a0 =
     (case copy_loop N poly 0 a0 of
        Inl e \<Rightarrow> Inl e
      | Inr (i, a) \<Rightarrow> zero_loop Order i a)"

text \<open>
  The list-initialiser constructor, whose second loop fills the rest of the array:
  \<^verbatim>\<open>for (; i < Order+1; ++i) Base::operator[](i) = Real();\<close>.
\<close>

function fill_loop :: "nat \<Rightarrow> nat \<Rightarrow> real list \<Rightarrow> fault + real list" where
  "fill_loop Order i a =
     (if i < Order + 1
      then (case store i 0 a of
              Inl e \<Rightarrow> Inl e
            | Inr a' \<Rightarrow> fill_loop Order (i + 1) a')
      else Inr a)"
  by pat_completeness auto
termination
  by (relation "measure (\<lambda>(Order, i, a). Order + 1 - i)") auto

declare fill_loop.simps [simp del]

subsection \<open>Roots\<close>

text \<open>
  The root sets are \<^verbatim>\<open>StackVector<double, Order>\<close>: the list of the roots pushed, in
  order. The three overloads of \<^verbatim>\<open>solve_roots\<close> are told apart by the order.
\<close>

definition solve_roots_0 :: "polynomial \<Rightarrow> real list" where
  "solve_roots_0 f = []"

definition solve_roots_1 :: "polynomial \<Rightarrow> real list" where
  "solve_roots_1 f = (if f ! 1 \<noteq> 0 then [- (f ! 0) / (f ! 1)] else [])"

text \<open>
  A \<^verbatim>\<open>double\<close> has two zeros, \<open>+0.0\<close> and \<open>-0.0\<close>, that compare equal and differ in the
  sign bit; \<open>-0.0\<close> comes, for one, out of the negation of \<open>+0.0\<close> in \<^verbatim>\<open>operator-\<close>.
  The reals have one zero, so the sign bit of a zero is a flag beside the number:
  \<open>negzero\<close> says that \<open>y\<close>, when it is zero, is the negative zero.
  \<^verbatim>\<open>std::signbit(y)\<close> and \<^verbatim>\<open>std::copysign(x, y)\<close>, the magnitude of \<open>x\<close> with the sign
  bit of \<open>y\<close>:
\<close>

definition signbit :: "bool \<Rightarrow> real \<Rightarrow> bool" where
  "signbit negzero y = (y < 0 \<or> (y = 0 \<and> negzero))"

definition copysign :: "bool \<Rightarrow> real \<Rightarrow> real \<Rightarrow> real" where
  "copysign negzero x y = (if signbit negzero y then - \<bar>x\<bar> else \<bar>x\<bar>)"

text \<open>
  The order-2 solver. The flag \<open>negzero\<close> is the sign bit of the coefficient \<open>f[1]\<close> in
  case it is zero, the only place where the sign of a zero is looked at.
\<close>

definition solve_roots_2 :: "bool \<Rightarrow> bool \<Rightarrow> polynomial \<Rightarrow> thrown + real list" where
  "solve_roots_2 debug negzero f =
     (if f ! 2 = 0
      then (case lower debug f of
              Inl e \<Rightarrow> Inl e
            | Inr g \<Rightarrow> Inr (solve_roots_1 g))
      else
        let arg = f ! 1 * f ! 1 - 4 * f ! 2 * f ! 0 in
        if arg < 0 then Inr []
        else if arg = 0 then Inr [- (f ! 1) / (2 * f ! 2)]
        else
          let root1 = - (f ! 1 + copysign negzero (sqrt arg) (f ! 1)) / (2 * f ! 2);
              root2 = f ! 0 / (f ! 2 * root1)
          in Inr [root1, root2])"

subsection \<open>Bounds\<close>

definition max_abs_val_2 :: "polynomial \<Rightarrow> real \<Rightarrow> real \<Rightarrow> real" where
  "max_abs_val_2 f tmin tmax =
     (let droot = - (f ! 1) / (2 * f ! 2);
          retval = max \<bar>eval f tmin\<bar> \<bar>eval f tmax\<bar>
      in if droot > tmin \<and> droot < tmax
         then max \<bar>eval f droot\<bar> retval
         else retval)"

subsection \<open>Names for the proofs about the roots\<close>

text \<open>The value of \<^verbatim>\<open>root1\<close> in the last branch of the order-2 solver.\<close>

definition first_root :: "bool \<Rightarrow> real \<Rightarrow> real \<Rightarrow> real \<Rightarrow> real" where
  "first_root negzero c0 c1 c2 = - (c1 + copysign negzero (sqrt (c1 * c1 - 4 * c2 * c0)) c1) / (2 * c2)"

text \<open>
  The case analysis as the specification words it, for the comparison with
  \<open>solve_roots_2\<close>: the discriminant \<open>c1\<^sup>2 - 4 c2 c0\<close>; no root when it is negative, the
  double root \<open>- c1 / (2 c2)\<close> when it is zero, and otherwise the root
  \<open>(- c1 - sign c1 * sqrt D) / (2 c2)\<close> followed by \<open>c0 / (c2 * root1)\<close>. The function
  that gives the sign is the parameter \<open>sgn_of\<close>. The sign of a \<^verbatim>\<open>double\<close> is \<open>-1\<close> or
  \<open>+1\<close> by its sign bit.
\<close>

definition sign :: "bool \<Rightarrow> real \<Rightarrow> real" where
  "sign negzero y = (if signbit negzero y then - 1 else 1)"

definition spec_quadratic_roots :: "(real \<Rightarrow> real) \<Rightarrow> real \<Rightarrow> real \<Rightarrow> real \<Rightarrow> real list" where
  "spec_quadratic_roots sgn_of c0 c1 c2 =
     (let D = c1\<^sup>2 - 4 * c2 * c0 in
      if D < 0 then []
      else if D = 0 then [- c1 / (2 * c2)]
      else
        let root1 = (- c1 - sgn_of c1 * sqrt D) / (2 * c2)
        in [root1, c0 / (c2 * root1)])"

section \<open>The simulation driver (dynamo/simulation.cpp)\<close>

datatype ESimulationStatus = START | CONFIG_LOADED | INITIALISED | PRODUCTION | ERROR

text \<open>
  The members of \<^verbatim>\<open>Simulation\<close> that the driver reads or writes. The counters are
  64-bit unsigned integers; \<open>cout\<close> is what has been written to the standard output. The
  rest of the object (particles, scheduler, plugins) is the extension of the record.
\<close>

record simulation =
  status :: ESimulationStatus
  eventCount :: "64 word"
  endEventCount :: "64 word"
  eventPrintInterval :: "64 word"
  nextPrintEvent :: "64 word"
  dSysTime :: real
  cout :: string

text \<open>
  A member function that may throw: it returns the new state, or the exception together with
  the state the object was left in when the exception was raised.
\<close>

type_synonym 's action = "'s \<Rightarrow> (thrown \<times> 's) + 's"

text \<open>\<^verbatim>\<open>nextPrintEvent = endEventCount = eventCount;\<close>\<close>

definition simShutdown :: "'a simulation_scheme \<Rightarrow> 'a simulation_scheme" where
  "simShutdown s = (let s1 = s\<lparr>endEventCount := eventCount s\<rparr>
                    in s1\<lparr>nextPrintEvent := endEventCount s1\<rparr>)"

text \<open>The text that \<^verbatim>\<open>operator<<\<close> writes for an unsigned integer.\<close>

definition digit :: "nat \<Rightarrow> char" where
  "digit d = ''0123456789'' ! d"

function decimal :: "nat \<Rightarrow> string" where
  "decimal n = (if n < 10 then [digit n] else decimal (n div 10) @ [digit (n mod 10)])"
  by pat_completeness auto
termination
  by (relation "measure id") auto

declare decimal.simps [simp del]

text \<open>\<^verbatim>\<open>BOOST_FOREACH(shared_ptr<OutputPlugin> & Ptr, outputPlugins) Ptr->periodicOutput();\<close>
  Each plugin is given by what its \<^verbatim>\<open>periodicOutput\<close> does.\<close>

fun periodicOutputs :: "'s action list \<Rightarrow> 's action" where
  "periodicOutputs [] s = Inr s"
| "periodicOutputs (p # ps) s =
     (case p s of Inl e \<Rightarrow> Inl e | Inr s' \<Rightarrow> periodicOutputs ps s')"

text \<open>
  The body of the \<^verbatim>\<open>try\<close> block: the scheduler's \<^verbatim>\<open>runNextEvent\<close> (the parameter
  \<open>runNextEvent\<close>: the scheduler is another module and may do anything to the state), then
  the periodic work.
  It returns the local variable \<^verbatim>\<open>nextPrint\<close> with the state.
\<close>

definition try_block ::
  "'a simulation_scheme action \<Rightarrow> bool \<Rightarrow> 'a simulation_scheme action list \<Rightarrow> 64 word \<Rightarrow>
   'a simulation_scheme \<Rightarrow> (thrown \<times> 'a simulation_scheme) + (64 word \<times> 'a simulation_scheme)" where
  "try_block runNextEvent silentMode outputPlugins nextPrint s =
     (case runNextEvent s of
        Inl e \<Rightarrow> Inl e
      | Inr s1 \<Rightarrow>
          if eventCount s1 \<ge> nextPrint \<and> \<not> silentMode \<and> length outputPlugins \<noteq> 0
          then (case periodicOutputs outputPlugins s1 of
                  Inl e \<Rightarrow> Inl e
                | Inr s2 \<Rightarrow>
                    Inr (eventCount s2 + eventPrintInterval s2, s2\<lparr>cout := cout s2 @ [CHR 0x0A]\<rparr>))
          else Inr (nextPrint, s1))"

text \<open>
  The handler \<^verbatim>\<open>catch (std::exception &cep)\<close>: it throws a new exception whose message
  is built from the current event count and \<^verbatim>\<open>cep.what()\<close>. Anything that is not a
  \<^verbatim>\<open>std::exception\<close> is not caught and leaves the function as it is.
\<close>

fun catch_handler :: "thrown \<times> 'a simulation_scheme \<Rightarrow> thrown \<times> 'a simulation_scheme" where
  "catch_handler (std_exception w, s) =
     (M_throw (CHR 0x0A # ''While executing event '' @ decimal (unat (eventCount s)) @ w), s)"
| "catch_handler (other_throw, s) = (other_throw, s)"

text \<open>\<^verbatim>\<open>while (eventCount < endEventCount) try { ... } catch ...\<close>. The loop need not
  end, so its result is optional: \<open>None\<close> is a run that never returns.\<close>

partial_function (option) event_loop ::
  "'a simulation_scheme action \<Rightarrow> bool \<Rightarrow> 'a simulation_scheme action list \<Rightarrow> 64 word \<Rightarrow>
   'a simulation_scheme \<Rightarrow> ((thrown \<times> 'a simulation_scheme) + 'a simulation_scheme) option" where
  "event_loop runNextEvent silentMode outputPlugins nextPrint s =
     (if eventCount s < endEventCount s
      then (case try_block runNextEvent silentMode outputPlugins nextPrint s of
              Inl e \<Rightarrow> Some (Inl (catch_handler e))
            | Inr (nextPrint', s') \<Rightarrow> event_loop runNextEvent silentMode outputPlugins nextPrint' s')
      else Some (Inr s))"

definition runSimulation ::
  "'a simulation_scheme action \<Rightarrow> 'a simulation_scheme action list \<Rightarrow> bool \<Rightarrow>
   'a simulation_scheme \<Rightarrow> ((thrown \<times> 'a simulation_scheme) + 'a simulation_scheme) option" where
  "runSimulation runNextEvent outputPlugins silentMode s =
     (if status s \<noteq> INITIALISED \<and> status s \<noteq> PRODUCTION
      then Some (Inl (M_throw ''Bad state for runSimulation()'', s))
      else
        let s1 = s\<lparr>status := PRODUCTION\<rparr>;
            nextPrint = eventCount s1 + eventPrintInterval s1
        in event_loop runNextEvent silentMode outputPlugins nextPrint s1)"

text \<open>The message of the exception that a run ends with, if it ends with one.\<close>

definition diagnostic :: "((thrown \<times> 's) + 's) option \<Rightarrow> string option" where
  "diagnostic r = (case r of Some (Inl (e, s)) \<Rightarrow> Some (what e) | _ \<Rightarrow> None)"

subsection \<open>A sample run\<close>

text \<open>
  A simulation at event 7 of 100 at system time \<open>t\<close>, an event that fails with a
  \<^verbatim>\<open>std::exception\<close>, and an event that asks for the shutdown and then counts itself.
\<close>

definition sim_at :: "real \<Rightarrow> simulation" where
  "sim_at t = \<lparr>status = INITIALISED, eventCount = 7, endEventCount = 100,
              eventPrintInterval = 10, nextPrintEvent = 17, dSysTime = t, cout = []\<rparr>"

definition failing_event :: "simulation action" where
  "failing_event s = Inl (std_exception ''boom'', s)"

definition stopping_event :: "simulation action" where
  "stopping_event s = (let s1 = simShutdown s in Inr (s1\<lparr>eventCount := eventCount s1 + 1\<rparr>))"

section \<open>Properties of the root solvers\<close>

lemma eval_order0: "eval [c0] x = c0"
  by (simp add: eval_def)

lemma eval_order1: "eval [c0, c1] x = c1 * x + c0"
  by (simp add: eval_def)

lemma eval_order2: "eval [c0, c1, c2] x = c2 * x * x + c1 * x + c0"
  by (simp add: eval_def algebra_simps)

lemma copysign_sqrt_square:
  assumes "0 \<le> D"
  shows "copysign negzero (sqrt D) y * copysign negzero (sqrt D) y = D"
  using assms by (simp add: copysign_def)

lemma copysign_sqrt_same_sign:
  assumes "0 < D"
  shows "c1 + copysign negzero (sqrt D) c1 \<noteq> 0"
proof (cases "signbit negzero c1")
  case True
  then have "c1 \<le> 0" by (auto simp: signbit_def)
  moreover have "0 < sqrt D" using assms by simp
  ultimately have "c1 - sqrt D < 0" by linarith
  with True \<open>0 < sqrt D\<close> show ?thesis by (simp add: copysign_def)
next
  case False
  then have "0 \<le> c1" by (auto simp: signbit_def)
  moreover have "0 < sqrt D" using assms by simp
  ultimately have "0 < c1 + sqrt D" by linarith
  with False \<open>0 < sqrt D\<close> show ?thesis by (simp add: copysign_def)
qed

lemma first_root_nonzero:
  assumes "c2 \<noteq> 0" and "0 < c1 * c1 - 4 * c2 * c0"
  shows "first_root negzero c0 c1 c2 \<noteq> 0"
  using assms copysign_sqrt_same_sign [OF assms(2), of c1 negzero]
  by (simp add: first_root_def)

lemma first_root_is_root:
  assumes c2: "c2 \<noteq> 0" and D: "0 < c1 * c1 - 4 * c2 * c0"
  shows "c2 * first_root negzero c0 c1 c2 * first_root negzero c0 c1 c2 + c1 * first_root negzero c0 c1 c2 + c0 = 0"
proof -
  define s where "s = copysign negzero (sqrt (c1 * c1 - 4 * c2 * c0)) c1"
  have ss: "s * s = c1 * c1 - 4 * c2 * c0"
    unfolding s_def using D by (intro copysign_sqrt_square) simp
  have r: "first_root negzero c0 c1 c2 = - (c1 + s) / (2 * c2)"
    by (simp add: first_root_def s_def)
  have "c2 * (- (c1 + s) / (2 * c2)) * (- (c1 + s) / (2 * c2)) + c1 * (- (c1 + s) / (2 * c2)) + c0
        = (s * s - (c1 * c1 - 4 * c2 * c0)) / (4 * c2)"
    using c2 by (simp add: field_simps)
  also have "\<dots> = 0" using ss by simp
  finally show ?thesis unfolding r .
qed

lemma solve_roots_2_two_roots:
  assumes "c2 \<noteq> 0" and "0 < c1 * c1 - 4 * c2 * c0"
  shows "solve_roots_2 debug negzero [c0, c1, c2] =
           Inr [first_root negzero c0 c1 c2, c0 / (c2 * first_root negzero c0 c1 c2)]"
  using assms by (simp add: solve_roots_2_def first_root_def Let_def)

lemma solve_roots_2_double_root:
  assumes "c2 \<noteq> 0" and "c1 * c1 - 4 * c2 * c0 = 0"
  shows "solve_roots_2 debug negzero [c0, c1, c2] = Inr [- c1 / (2 * c2)]"
  using assms by (simp add: solve_roots_2_def Let_def)

lemma solve_roots_2_no_root:
  assumes "c2 \<noteq> 0" and "c1 * c1 - 4 * c2 * c0 < 0"
  shows "solve_roots_2 debug negzero [c0, c1, c2] = Inr []"
  using assms by (simp add: solve_roots_2_def Let_def)

lemma solve_roots_2_degenerate:
  "solve_roots_2 debug negzero [c0, c1, 0] = Inr (solve_roots_1 [c0, c1])"
  by (simp add: solve_roots_2_def lower_def)

lemma second_root_is_root:
  fixes negzero :: bool
  assumes c2: "c2 \<noteq> 0" and D: "0 < c1 * c1 - 4 * c2 * c0"
  defines "r2 \<equiv> c0 / (c2 * first_root negzero c0 c1 c2)"
  shows "c2 * r2 * r2 + c1 * r2 + c0 = 0"
proof -
  define r1 where "r1 = first_root negzero c0 c1 c2"
  have nz: "r1 \<noteq> 0" unfolding r1_def by (rule first_root_nonzero [OF c2 D])
  have root: "c2 * r1 * r1 + c1 * r1 + c0 = 0"
    unfolding r1_def by (rule first_root_is_root [OF c2 D])
  have r2: "r2 = c0 / (c2 * r1)" by (simp add: r2_def r1_def)
  have "c2 * r2 * r2 + c1 * r2 + c0 = c0 * (c2 * r1 * r1 + c1 * r1 + c0) / (c2 * r1 * r1)"
    unfolding r2 using c2 nz by (simp add: field_simps)
  also have "\<dots> = 0" using root by simp
  finally show ?thesis .
qed

lemma double_root_is_root:
  fixes c0 c1 c2 :: real
  assumes c2: "c2 \<noteq> 0" and D: "c1 * c1 - 4 * c2 * c0 = 0"
  shows "c2 * (- c1 / (2 * c2)) * (- c1 / (2 * c2)) + c1 * (- c1 / (2 * c2)) + c0 = 0"
proof -
  have "c2 * (- c1 / (2 * c2)) * (- c1 / (2 * c2)) + c1 * (- c1 / (2 * c2)) + c0
        = - (c1 * c1 - 4 * c2 * c0) / (4 * c2)"
    using c2 by (simp add: field_simps)
  then show ?thesis using D by simp
qed

lemma solve_roots_1_sound:
  assumes "r \<in> set (solve_roots_1 [c0, c1])"
  shows "c1 * r + c0 = 0"
  using assms by (simp add: solve_roots_1_def split: if_splits)

lemma solve_roots_2_sound:
  assumes res: "solve_roots_2 debug negzero [c0, c1, c2] = Inr rs" and r: "r \<in> set rs"
  shows "eval [c0, c1, c2] r = 0"
proof (cases "c2 = 0")
  case True
  with res have "rs = solve_roots_1 [c0, c1]"
    by (simp add: solve_roots_2_degenerate)
  with r have "c1 * r + c0 = 0" by (simp add: solve_roots_1_sound)
  with True show ?thesis by (simp add: eval_order2)
next
  case c2: False
  consider "c1 * c1 - 4 * c2 * c0 < 0" | "c1 * c1 - 4 * c2 * c0 = 0" | "0 < c1 * c1 - 4 * c2 * c0"
    by linarith
  then show ?thesis
  proof cases
    case 1
    with res r c2 show ?thesis by (simp add: solve_roots_2_no_root)
  next
    case 2
    with res c2 have "rs = [- c1 / (2 * c2)]" by (simp add: solve_roots_2_double_root)
    with r have "r = - c1 / (2 * c2)" by simp
    then show ?thesis
      unfolding eval_order2 using double_root_is_root [OF c2 2] by simp
  next
    case 3
    with res c2 have "rs = [first_root negzero c0 c1 c2, c0 / (c2 * first_root negzero c0 c1 c2)]"
      by (simp add: solve_roots_2_two_roots)
    with r have "r = first_root negzero c0 c1 c2 \<or> r = c0 / (c2 * first_root negzero c0 c1 c2)" by simp
    then show ?thesis
      unfolding eval_order2
      using first_root_is_root [OF c2 3] second_root_is_root [OF c2 3] by auto
  qed
qed

text \<open>
  Claim C2. Over the reals, every root that \<^verbatim>\<open>solve_roots\<close> returns for a polynomial of
  order 0, 1 or 2 is a zero of the polynomial as \<^verbatim>\<open>operator()\<close> evaluates it. For order 2
  this covers the reduction to order 1, the double root, the root computed directly and the
  root derived as \<open>c0 / (c2 * root1)\<close>.
\<close>

theorem solve_roots_returns_roots:
  "(\<forall>r\<in>set (solve_roots_0 [c0]). eval [c0] r = 0)
   \<and> (\<forall>r\<in>set (solve_roots_1 [c0, c1]). eval [c0, c1] r = 0)
   \<and> (\<forall>rs. solve_roots_2 debug negzero [c0, c1, c2] = Inr rs \<longrightarrow> (\<forall>r\<in>set rs. eval [c0, c1, c2] r = 0))"
proof (intro conjI)
  show "\<forall>r\<in>set (solve_roots_0 [c0]). eval [c0] r = 0"
    by (simp add: solve_roots_0_def)
  show "\<forall>r\<in>set (solve_roots_1 [c0, c1]). eval [c0, c1] r = 0"
    by (simp add: eval_order1 solve_roots_1_sound)
  show "\<forall>rs. solve_roots_2 debug negzero [c0, c1, c2] = Inr rs \<longrightarrow> (\<forall>r\<in>set rs. eval [c0, c1, c2] r = 0)"
    by (blast intro: solve_roots_2_sound)
qed

lemma first_root_example: "first_root negzero (-3) 2 1 = -3"
proof -
  have "sqrt 16 = sqrt (4\<^sup>2)" by simp
  also have "\<dots> = 4" by (simp only: real_sqrt_abs abs_numeral)
  finally show ?thesis by (simp add: first_root_def copysign_def signbit_def)
qed

lemma solve_roots_2_example: "solve_roots_2 debug negzero [-3, 2, 1] = Inr [-3, 1]"
proof -
  have "solve_roots_2 debug negzero [-3, 2, 1] = Inr [first_root negzero (-3) 2 1, (-3) / (1 * first_root negzero (-3) 2 1)]"
    by (rule solve_roots_2_two_roots) simp_all
  then show ?thesis by (simp add: first_root_example)
qed

theorem solve_roots_returns_roots_witness:
  "solve_roots_1 [-3, 2] = [3 / 2] \<and> eval [-3, 2] (3 / 2) = 0
   \<and> solve_roots_2 False False [-3, 2, 1] = Inr [-3, 1] \<and> eval [-3, 2, 1] (-3) = 0 \<and> eval [-3, 2, 1] 1 = 0"
proof -
  have r1: "solve_roots_1 [-3, 2] = [3 / 2]"
    by (simp add: solve_roots_1_def)
  have r2: "solve_roots_2 False False [-3, 2, 1] = Inr [-3, 1]"
    by (rule solve_roots_2_example)
  from solve_roots_returns_roots [of "-3" 2 False False 1]
  show ?thesis
    unfolding r1 r2 by simp
qed

lemma first_root_spec_form:
  assumes "0 < c1 * c1 - 4 * c2 * c0"
  shows "first_root negzero c0 c1 c2 = (- c1 - sign negzero c1 * sqrt (c1 * c1 - 4 * c2 * c0)) / (2 * c2)"
proof -
  have "0 \<le> sqrt (c1 * c1 - 4 * c2 * c0)" using assms by simp
  then have "copysign negzero (sqrt (c1 * c1 - 4 * c2 * c0)) c1 = sign negzero c1 * sqrt (c1 * c1 - 4 * c2 * c0)"
    by (simp add: copysign_def sign_def)
  then show ?thesis
    by (simp add: first_root_def algebra_simps)
qed

lemma sign_eq_sgn: "c1 \<noteq> 0 \<Longrightarrow> sign negzero c1 = sgn c1"
  by (simp add: sign_def signbit_def sgn_if)

lemma sqrt_4: "sqrt 4 = 2"
proof -
  have "sqrt 4 = sqrt (2\<^sup>2)" by simp
  also have "\<dots> = 2" by (simp only: real_sqrt_abs abs_numeral)
  finally show ?thesis .
qed

lemma solve_roots_2_negative_zero_example:
  "solve_roots_2 debug True [1, 0, -1] = Inr [-1, 1]"
  by (simp add: solve_roots_2_def copysign_def signbit_def sqrt_4 Let_def)

lemma solve_roots_2_positive_zero_example:
  "solve_roots_2 debug False [1, 0, -1] = Inr [1, -1]"
  by (simp add: solve_roots_2_def copysign_def signbit_def sqrt_4 Let_def)

lemma solve_roots_2_spec_cases:
  assumes c2: "c2 \<noteq> 0"
  shows "solve_roots_2 debug negzero [c0, c1, c2] = Inr (spec_quadratic_roots (sign negzero) c0 c1 c2)"
proof -
  consider "c1 * c1 - 4 * c2 * c0 < 0" | "c1 * c1 - 4 * c2 * c0 = 0" | "0 < c1 * c1 - 4 * c2 * c0"
    by linarith
  then show ?thesis
  proof cases
    case 1
    then show ?thesis
      using c2 by (simp add: solve_roots_2_no_root spec_quadratic_roots_def power2_eq_square)
  next
    case 2
    then show ?thesis
      using c2 by (simp add: solve_roots_2_double_root spec_quadratic_roots_def power2_eq_square)
  next
    case 3
    then show ?thesis
      using c2 first_root_spec_form [OF 3]
      by (simp add: solve_roots_2_two_roots spec_quadratic_roots_def power2_eq_square Let_def)
  qed
qed

text \<open>
  Claim C1. For an order-2 polynomial with \<open>c2 \<noteq> 0\<close> the solver performs the case
  analysis of the specification on the discriminant \<open>D = c1\<^sup>2 - 4 c2 c0\<close>: no root for
  \<open>D < 0\<close>, exactly the one root \<open>- c1 / (2 c2)\<close> for \<open>D = 0\<close>, and for \<open>D > 0\<close> exactly the
  two roots \<open>root1 = (- c1 - sign c1 * sqrt D) / (2 c2)\<close> and \<open>c0 / (c2 * root1)\<close>, in this
  order. The sign of \<open>c1\<close> is the one \<^verbatim>\<open>std::copysign\<close> takes, \<open>-1\<close> or \<open>+1\<close> by the sign
  bit, whichever zero \<open>c1\<close> may be; for \<open>c1 \<noteq> 0\<close> it is the signum of \<open>c1\<close>.
\<close>

theorem solve_roots_2_case_analysis:
  assumes "c2 \<noteq> 0"
  shows "solve_roots_2 debug negzero [c0, c1, c2] = Inr (spec_quadratic_roots (sign negzero) c0 c1 c2)
       \<and> (c1 \<noteq> 0 \<longrightarrow> sign negzero c1 = sgn c1)
       \<and> (c1 \<noteq> 0 \<longrightarrow> solve_roots_2 debug negzero [c0, c1, c2] = Inr (spec_quadratic_roots sgn c0 c1 c2))"
proof (intro conjI impI)
  show "solve_roots_2 debug negzero [c0, c1, c2] = Inr (spec_quadratic_roots (sign negzero) c0 c1 c2)"
    by (rule solve_roots_2_spec_cases [OF assms])
next
  assume "c1 \<noteq> 0"
  then show "sign negzero c1 = sgn c1" by (rule sign_eq_sgn)
next
  assume "c1 \<noteq> 0"
  then have "spec_quadratic_roots sgn c0 c1 c2 = spec_quadratic_roots (sign negzero) c0 c1 c2"
    by (simp add: spec_quadratic_roots_def sign_eq_sgn Let_def)
  then show "solve_roots_2 debug negzero [c0, c1, c2] = Inr (spec_quadratic_roots sgn c0 c1 c2)"
    by (simp add: solve_roots_2_spec_cases [OF assms])
qed

theorem solve_roots_2_case_analysis_witness:
  "(1::real) \<noteq> 0 \<and> (2::real) \<noteq> 0 \<and> (-1::real) \<noteq> 0
   \<and> solve_roots_2 False False [-3, 2, 1] = Inr [-3, 1]
   \<and> spec_quadratic_roots (sign False) (-3) 2 1 = [-3, 1]
   \<and> sign False 2 = sgn 2
   \<and> spec_quadratic_roots sgn (-3) 2 1 = [-3, 1]
   \<and> solve_roots_2 False True [1, 0, -1] = Inr [-1, 1]
   \<and> spec_quadratic_roots (sign True) 1 0 (-1) = [-1, 1]
   \<and> solve_roots_2 False False [1, 0, -1] = Inr [1, -1]
   \<and> spec_quadratic_roots (sign False) 1 0 (-1) = [1, -1]"
proof -
  have "(1::real) \<noteq> 0" by simp
  note t = solve_roots_2_case_analysis [OF this, of False False "-3" 2, unfolded solve_roots_2_example]
  from t have a: "Inr [-3, 1] = (Inr (spec_quadratic_roots (sign False) (-3) 2 1) :: thrown + real list)"
    by (rule conjunct1)
  from t have b: "Inr [-3, 1] = (Inr (spec_quadratic_roots sgn (-3) 2 1) :: thrown + real list)"
    by (rule conjunct2 [THEN conjunct2, THEN mp]) simp
  from t have c: "sign False (2::real) = sgn 2"
    by (rule conjunct2 [THEN conjunct1, THEN mp]) simp
  have "(-1::real) \<noteq> 0" by simp
  note u = solve_roots_2_case_analysis [OF this, of False _ 1 0, THEN conjunct1]
  from u [of True] have d: "Inr [-1, 1] = (Inr (spec_quadratic_roots (sign True) 1 0 (-1)) :: thrown + real list)"
    unfolding solve_roots_2_negative_zero_example .
  from u [of False] have e: "Inr [1, -1] = (Inr (spec_quadratic_roots (sign False) 1 0 (-1)) :: thrown + real list)"
    unfolding solve_roots_2_positive_zero_example .
  from a [symmetric] b [symmetric] c d [symmetric] e [symmetric] show ?thesis
    by (simp add: solve_roots_2_example solve_roots_2_negative_zero_example
        solve_roots_2_positive_zero_example)
qed

text \<open>
  Claim C3. An order-2 polynomial with \<open>c2 = 0\<close> is solved by the order-1 solver on
  \<open>(c0, c1)\<close>; with \<open>c1 = 0\<close> as well the root set is empty; and the order-2 solver returns
  a root set, never an exception, for all coefficients, with or without \<^verbatim>\<open>MAGNET_DEBUG\<close>.
\<close>

theorem solve_roots_2_degenerate_reduction:
  "solve_roots_2 debug negzero [c0, c1, 0] = Inr (solve_roots_1 [c0, c1])
   \<and> solve_roots_2 debug negzero [c0, 0, 0] = Inr []
   \<and> (\<exists>rs. solve_roots_2 debug negzero [c0, c1, c2] = Inr rs)"
proof (intro conjI)
  show "solve_roots_2 debug negzero [c0, c1, 0] = Inr (solve_roots_1 [c0, c1])"
    by (rule solve_roots_2_degenerate)
  show "solve_roots_2 debug negzero [c0, 0, 0] = Inr []"
    by (simp add: solve_roots_2_degenerate solve_roots_1_def)
  show "\<exists>rs. solve_roots_2 debug negzero [c0, c1, c2] = Inr rs"
    by (cases "c2 = 0") (simp_all add: solve_roots_2_degenerate solve_roots_2_spec_cases)
qed

text \<open>
  Claim C4. For \<open>c2 \<noteq> 0\<close> and a positive discriminant the two returned roots satisfy
  Vieta's relations \<open>root1 * root2 = c0 / c2\<close> and \<open>root1 + root2 = - c1 / c2\<close>.
\<close>

theorem solve_roots_2_vieta:
  assumes c2: "c2 \<noteq> 0" and D: "0 < c1 * c1 - 4 * c2 * c0"
  shows "\<exists>root1 root2. solve_roots_2 debug negzero [c0, c1, c2] = Inr [root1, root2]
           \<and> root1 * root2 = c0 / c2 \<and> root1 + root2 = - c1 / c2"
proof -
  define r1 where "r1 = first_root negzero c0 c1 c2"
  define r2 where "r2 = c0 / (c2 * r1)"
  have nz: "r1 \<noteq> 0" unfolding r1_def by (rule first_root_nonzero [OF c2 D])
  have root: "c2 * r1 * r1 + c1 * r1 + c0 = 0"
    unfolding r1_def by (rule first_root_is_root [OF c2 D])
  have res: "solve_roots_2 debug negzero [c0, c1, c2] = Inr [r1, r2]"
    unfolding r1_def r2_def by (rule solve_roots_2_two_roots [OF c2 D])
  have prod: "r1 * r2 = c0 / c2"
    unfolding r2_def using nz c2 by simp
  have "r1 + r2 - (- c1 / c2) = (c2 * r1 * r1 + c1 * r1 + c0) / (c2 * r1)"
    unfolding r2_def using nz c2 by (simp add: field_simps)
  also have "\<dots> = 0" using root by simp
  finally have sum: "r1 + r2 = - c1 / c2" by simp
  from res prod sum show ?thesis by blast
qed

theorem solve_roots_2_vieta_witness:
  "(1::real) \<noteq> 0 \<and> (0::real) < 2 * 2 - 4 * 1 * (-3)
   \<and> solve_roots_2 False False [-3, 2, 1] = Inr [-3, 1]
   \<and> (-3) * 1 = (-3) / (1::real) \<and> (-3) + 1 = - 2 / (1::real)"
proof -
  have "(1::real) \<noteq> 0" and "(0::real) < 2 * 2 - 4 * 1 * (-3)" by simp_all
  from solve_roots_2_vieta [OF this, of False False]
  show ?thesis by (simp add: solve_roots_2_example)
qed

text \<open>
  Claim C9. In the two-root branch (\<open>c2 \<noteq> 0\<close>, positive discriminant) the first root
  \<open>root1 = - (c1 + copysign (sqrt D) c1) / (2 c2)\<close> is not zero, so the denominator
  \<open>c2 * root1\<close> of the second root is not zero, whichever zero \<open>c1\<close> may be.
\<close>

theorem solve_roots_2_root1_nonzero:
  assumes c2: "c2 \<noteq> 0" and D: "0 < c1 * c1 - 4 * c2 * c0"
  shows "\<exists>root1. root1 = - (c1 + copysign negzero (sqrt (c1 * c1 - 4 * c2 * c0)) c1) / (2 * c2)
           \<and> solve_roots_2 debug negzero [c0, c1, c2] = Inr [root1, c0 / (c2 * root1)]
           \<and> root1 \<noteq> 0 \<and> c2 * root1 \<noteq> 0"
proof -
  have "first_root negzero c0 c1 c2 \<noteq> 0" by (rule first_root_nonzero [OF c2 D])
  moreover from this c2 have "c2 * first_root negzero c0 c1 c2 \<noteq> 0" by simp
  moreover note solve_roots_2_two_roots [OF c2 D, of debug negzero]
  ultimately show ?thesis
    unfolding first_root_def by blast
qed

theorem solve_roots_2_root1_nonzero_witness:
  "(1::real) \<noteq> 0 \<and> (0::real) < 0 * 0 - 4 * 1 * (-1)
   \<and> solve_roots_2 False False [-1, 0, 1] = Inr [-1, (-1) / (1 * (-1))]
   \<and> (-1::real) \<noteq> 0 \<and> 1 * (-1::real) \<noteq> 0
   \<and> solve_roots_2 False True [-1, 0, 1] = Inr [1, (-1) / (1 * 1)]
   \<and> (1::real) \<noteq> 0 \<and> 1 * (1::real) \<noteq> 0"
proof -
  have h: "(1::real) \<noteq> 0" "(0::real) < 0 * 0 - 4 * 1 * (-1)" by simp_all
  from solve_roots_2_root1_nonzero [OF h, of False False]
    solve_roots_2_root1_nonzero [OF h, of True False]
  show ?thesis by (simp add: copysign_def signbit_def sqrt_4)
qed

text \<open>
  Claim C10. The order-0 solver returns the empty root set for every coefficient, and the
  order-1 solver returns it whenever \<open>c1 = 0\<close>. In particular the zero polynomial, which
  vanishes everywhere, is reported with no roots; the result is a root set and not an error.
\<close>

theorem zero_polynomial_has_no_reported_roots:
  "solve_roots_0 [c0] = [] \<and> solve_roots_1 [c0, 0] = []
   \<and> eval [0] x = 0 \<and> solve_roots_0 [0] = []
   \<and> eval [0, 0] x = 0 \<and> solve_roots_1 [0, 0] = []"
  by (simp add: solve_roots_0_def solve_roots_1_def eval_def)

section \<open>The bound on an interval\<close>


lemma square_le_between:
  fixes a b t v :: real
  assumes "a \<le> t" and "t \<le> b"
  shows "(t - v) * (t - v) \<le> max ((a - v) * (a - v)) ((b - v) * (b - v))"
proof (cases "v \<le> t")
  case True
  with assms have "(t - v) * (t - v) \<le> (b - v) * (b - v)"
    by (intro mult_mono) auto
  then show ?thesis by simp
next
  case False
  with assms have "(v - t) * (v - t) \<le> (v - a) * (v - a)"
    by (intro mult_mono) auto
  then have "(t - v) * (t - v) \<le> (a - v) * (a - v)"
    by (simp add: algebra_simps)
  then show ?thesis by simp
qed

lemma square_ge_outside:
  fixes a b t v :: real
  assumes "a \<le> t" and "t \<le> b" and "\<not> (a < v \<and> v < b)"
  shows "min ((a - v) * (a - v)) ((b - v) * (b - v)) \<le> (t - v) * (t - v)"
proof (cases "v \<le> a")
  case True
  with assms have "(a - v) * (a - v) \<le> (t - v) * (t - v)"
    by (intro mult_mono) auto
  then show ?thesis by simp
next
  case False
  with assms have "b \<le> v" by simp
  with assms have "(v - b) * (v - b) \<le> (v - t) * (v - t)"
    by (intro mult_mono) auto
  then have "(b - v) * (b - v) \<le> (t - v) * (t - v)"
    by (simp add: algebra_simps)
  then show ?thesis by simp
qed

lemma vertex_form_bound:
  fixes k m a b t v :: real
  assumes k: "0 \<le> k" and t: "a \<le> t" "t \<le> b"
  defines "q \<equiv> \<lambda>x. k * ((x - v) * (x - v)) + m"
  shows "\<bar>q t\<bar> \<le> (if a < v \<and> v < b then max \<bar>q v\<bar> (max \<bar>q a\<bar> \<bar>q b\<bar>) else max \<bar>q a\<bar> \<bar>q b\<bar>)"
proof -
  have "k * ((t - v) * (t - v)) \<le> k * max ((a - v) * (a - v)) ((b - v) * (b - v))"
    using square_le_between [OF t, of v] k by (rule mult_left_mono)
  then have upper: "q t \<le> max (q a) (q b)"
    using k by (auto simp: q_def max_def split: if_splits dest: mult_left_mono)
  have low_in: "q v \<le> q t"
    using k by (simp add: q_def)
  show ?thesis
  proof (cases "a < v \<and> v < b")
    case True
    show ?thesis unfolding if_P [OF True] using upper low_in by linarith
  next
    case False
    have "k * min ((a - v) * (a - v)) ((b - v) * (b - v)) \<le> k * ((t - v) * (t - v))"
      using square_ge_outside [OF t False] k by (rule mult_left_mono)
    then have lower: "min (q a) (q b) \<le> q t"
      using k by (auto simp: q_def min_def split: if_splits dest: mult_left_mono)
    show ?thesis unfolding if_not_P [OF False] using upper lower by linarith
  qed
qed

lemma max_abs_val_2_unfold:
  "max_abs_val_2 [c0, c1, c2] tmin tmax =
     (if tmin < - c1 / (2 * c2) \<and> - c1 / (2 * c2) < tmax
      then max \<bar>eval [c0, c1, c2] (- c1 / (2 * c2))\<bar>
             (max \<bar>eval [c0, c1, c2] tmin\<bar> \<bar>eval [c0, c1, c2] tmax\<bar>)
      else max \<bar>eval [c0, c1, c2] tmin\<bar> \<bar>eval [c0, c1, c2] tmax\<bar>)"
  by (simp add: max_abs_val_2_def Let_def)

lemma eval_vertex_form:
  assumes "c2 \<noteq> 0"
  shows "eval [c0, c1, c2] x =
           c2 * ((x - (- c1 / (2 * c2))) * (x - (- c1 / (2 * c2)))) + (c0 - c1 * c1 / (4 * c2))"
  using assms by (simp add: eval_order2 field_simps)

lemma max_abs_val_2_upper:
  assumes c2: "c2 \<noteq> 0" and t: "tmin \<le> t" "t \<le> tmax"
  shows "\<bar>eval [c0, c1, c2] t\<bar> \<le> max_abs_val_2 [c0, c1, c2] tmin tmax"
proof -
  define v where "v = - c1 / (2 * c2)"
  define m where "m = c0 - c1 * c1 / (4 * c2)"
  have form: "eval [c0, c1, c2] x = c2 * ((x - v) * (x - v)) + m" for x
    unfolding v_def m_def by (rule eval_vertex_form [OF c2])
  show ?thesis
  proof (cases "0 \<le> c2")
    case True
    from vertex_form_bound [OF True t, of v m]
    show ?thesis
      unfolding max_abs_val_2_unfold v_def [symmetric] form .
  next
    case False
    then have k: "0 \<le> - c2" by simp
    have neg: "\<bar>c2 * ((x - v) * (x - v)) + m\<bar> = \<bar>- c2 * ((x - v) * (x - v)) + - m\<bar>" for x
      by (simp add: abs_if)
    from vertex_form_bound [OF k t, of v "- m"]
    show ?thesis
      unfolding max_abs_val_2_unfold v_def [symmetric] form neg .
  qed
qed

lemma max_abs_val_2_attained:
  assumes "tmin \<le> tmax"
  shows "\<exists>t\<in>{tmin..tmax}. \<bar>eval [c0, c1, c2] t\<bar> = max_abs_val_2 [c0, c1, c2] tmin tmax"
proof -
  let ?f = "eval [c0, c1, c2]" and ?v = "- c1 / (2 * c2)"
  let ?M = "max_abs_val_2 [c0, c1, c2] tmin tmax"
  have "?M = \<bar>?f tmin\<bar> \<or> ?M = \<bar>?f tmax\<bar> \<or> (tmin < ?v \<and> ?v < tmax \<and> ?M = \<bar>?f ?v\<bar>)"
    unfolding max_abs_val_2_unfold by (simp add: max_def)
  then consider "?M = \<bar>?f tmin\<bar>" | "?M = \<bar>?f tmax\<bar>" | "tmin < ?v" "?v < tmax" "?M = \<bar>?f ?v\<bar>"
    by blast
  then show ?thesis
  proof cases
    case 1
    with assms show ?thesis by (intro bexI [of _ tmin]) auto
  next
    case 2
    with assms show ?thesis by (intro bexI [of _ tmax]) auto
  next
    case 3
    then show ?thesis by (intro bexI [of _ ?v]) auto
  qed
qed

text \<open>
  Claim C6. For an order-2 polynomial with \<open>c2 \<noteq> 0\<close> and \<open>tmin \<le> tmax\<close> the value of
  \<^verbatim>\<open>max_abs_val\<close> is the maximum of \<open>\<bar>f t\<bar>\<close> over the closed interval: it bounds
  \<open>\<bar>f t\<bar>\<close> for every \<open>t\<close> of the interval and is attained at one of them. It is the larger
  of \<open>\<bar>f tmin\<bar>\<close> and \<open>\<bar>f tmax\<bar>\<close>, compared with \<open>\<bar>f\<bar>\<close> at the vertex \<open>- c1 / (2 c2)\<close>
  exactly when the vertex lies strictly inside the interval.
\<close>

theorem max_abs_val_2_is_maximum:
  assumes "c2 \<noteq> 0" and "tmin \<le> tmax"
  shows "(\<forall>t\<in>{tmin..tmax}. \<bar>eval [c0, c1, c2] t\<bar> \<le> max_abs_val_2 [c0, c1, c2] tmin tmax)
       \<and> (\<exists>t\<in>{tmin..tmax}. \<bar>eval [c0, c1, c2] t\<bar> = max_abs_val_2 [c0, c1, c2] tmin tmax)
       \<and> max_abs_val_2 [c0, c1, c2] tmin tmax =
           (if tmin < - c1 / (2 * c2) \<and> - c1 / (2 * c2) < tmax
            then max \<bar>eval [c0, c1, c2] (- c1 / (2 * c2))\<bar>
                   (max \<bar>eval [c0, c1, c2] tmin\<bar> \<bar>eval [c0, c1, c2] tmax\<bar>)
            else max \<bar>eval [c0, c1, c2] tmin\<bar> \<bar>eval [c0, c1, c2] tmax\<bar>)"
proof (intro conjI ballI)
  fix t assume "t \<in> {tmin..tmax}"
  then show "\<bar>eval [c0, c1, c2] t\<bar> \<le> max_abs_val_2 [c0, c1, c2] tmin tmax"
    using max_abs_val_2_upper [OF assms(1)] by simp
next
  show "\<exists>t\<in>{tmin..tmax}. \<bar>eval [c0, c1, c2] t\<bar> = max_abs_val_2 [c0, c1, c2] tmin tmax"
    by (rule max_abs_val_2_attained [OF assms(2)])
next
  show "max_abs_val_2 [c0, c1, c2] tmin tmax =
           (if tmin < - c1 / (2 * c2) \<and> - c1 / (2 * c2) < tmax
            then max \<bar>eval [c0, c1, c2] (- c1 / (2 * c2))\<bar>
                   (max \<bar>eval [c0, c1, c2] tmin\<bar> \<bar>eval [c0, c1, c2] tmax\<bar>)
            else max \<bar>eval [c0, c1, c2] tmin\<bar> \<bar>eval [c0, c1, c2] tmax\<bar>)"
    by (rule max_abs_val_2_unfold)
qed

theorem max_abs_val_2_is_maximum_witness:
  "(1::real) \<noteq> 0 \<and> (-1::real) \<le> 2
     \<and> (0::real) \<in> {-1..2} \<and> \<bar>eval [-4, -2, 1] 0\<bar> \<le> max_abs_val_2 [-4, -2, 1] (-1) 2
     \<and> (\<exists>t\<in>{-1..2}. \<bar>eval [-4, -2, 1] t\<bar> = 5)
     \<and> max_abs_val_2 [-4, -2, 1] (-1) 2 = 5"
proof -
  have M: "max_abs_val_2 [-4, -2, 1] (-1) 2 = 5"
    by (simp add: max_abs_val_2_def eval_def)
  have "(1::real) \<noteq> 0" and "(-1::real) \<le> 2" by simp_all
  from max_abs_val_2_is_maximum [OF this, of "-4" "-2"] show ?thesis
    unfolding M by simp
qed

section \<open>The promotion constructor\<close>

lemma store_in_bounds: "i < length a \<Longrightarrow> store i v a = Inr (a[i := v])"
  by (simp add: store_def)

lemma store_out_of_bounds: "length a \<le> i \<Longrightarrow> store i v a = Inl (out_of_bounds_write i)"
  by (simp add: store_def)

lemma copy_loop_in_bounds:
  assumes "N < length a" and "i \<le> N + 1"
  shows "\<exists>a'. copy_loop N poly i a = Inr (N + 1, a') \<and> length a' = length a"
  using assms
proof (induction N poly i a rule: copy_loop.induct)
  case (1 N poly i a)
  show ?case
  proof (cases "i \<le> N")
    case True
    with "1.prems" have st: "store i (poly ! i) a = Inr (a[i := poly ! i])"
      by (simp add: store_in_bounds)
    from "1.IH" [OF True st] "1.prems" True
    obtain a' where "copy_loop N poly (i + 1) (a[i := poly ! i]) = Inr (N + 1, a')"
      and "length a' = length a" by auto
    with True st show ?thesis
      by (subst copy_loop.simps) simp
  next
    case False
    with "1.prems" have "i = N + 1" by simp
    then show ?thesis
      by (subst copy_loop.simps) simp
  qed
qed

lemma zero_loop_out_of_bounds:
  assumes "length a = Order + 1" and "i \<le> Order + 1"
  shows "zero_loop Order i a = Inl (out_of_bounds_write (Order + 1))"
  using assms
proof (induction Order i a rule: zero_loop.induct)
  case (1 Order i a)
  show ?case
  proof (cases "i = Order + 1")
    case True
    with "1.prems" show ?thesis
      by (subst zero_loop.simps) (simp add: store_out_of_bounds)
  next
    case False
    with "1.prems" have lt: "i < length a" and le: "i \<le> Order + 1" by simp_all
    from lt have st: "store i 0 a = Inr (a[i := 0])" by (rule store_in_bounds)
    from "1.IH" [OF le st] "1.prems" False
    have "zero_loop Order (i + 1) (a[i := 0]) = Inl (out_of_bounds_write (Order + 1))" by simp
    with le st show ?thesis
      by (subst zero_loop.simps) simp
  qed
qed

lemma fill_loop_in_bounds:
  assumes "length a = Order + 1"
  shows "\<exists>a'. fill_loop Order i a = Inr a' \<and> length a' = length a"
  using assms
proof (induction Order i a rule: fill_loop.induct)
  case (1 Order i a)
  show ?case
  proof (cases "i < Order + 1")
    case True
    with "1.prems" have st: "store i 0 a = Inr (a[i := 0])" by (simp add: store_in_bounds)
    from "1.IH" [OF True st] "1.prems"
    obtain a' where "fill_loop Order (i + 1) (a[i := 0]) = Inr a'" and "length a' = length a"
      by auto
    with True st show ?thesis
      by (subst fill_loop.simps) simp
  next
    case False
    then show ?thesis
      by (subst fill_loop.simps) simp
  qed
qed

lemma promote_always_out_of_bounds:
  assumes "N \<le> Order" and "length a0 = Order + 1"
  shows "promote Order N poly a0 = Inl (out_of_bounds_write (Order + 1))"
proof -
  from assms have "N < length a0" by simp
  from copy_loop_in_bounds [OF this, of 0 poly]
  obtain a where c: "copy_loop N poly 0 a0 = Inr (N + 1, a)" and l: "length a = length a0"
    by auto
  from l assms have "zero_loop Order (N + 1) a = Inl (out_of_bounds_write (Order + 1))"
    by (intro zero_loop_out_of_bounds) simp_all
  with c show ?thesis by (simp add: promote_def)
qed

text \<open>
  Claim C5 asks that the promotion constructor writes the indices \<open>0..N\<close> from the source,
  the indices \<open>N+1..Order\<close> with zero, and no index above \<open>Order\<close>. The second loop runs
  while \<open>i \<le> Order + 1\<close>, so it also writes the index \<open>Order + 1\<close>, one past the last
  element of the array (\<open>promote_always_out_of_bounds\<close>), whereas the loop of the
  list-initialiser constructor, which runs while \<open>i < Order + 1\<close>, stays inside
  (\<open>fill_loop_in_bounds\<close>). The promotion of the order-1 polynomial \<open>2 - x\<close> to order 2
  writes the index 3 of an array of three elements.
\<close>

theorem promote_writes_past_the_end:
  "promote 2 1 [2, -1] [u0, u1, u2] = Inl (out_of_bounds_write 3)"
  using promote_always_out_of_bounds [of 1 2 "[u0, u1, u2]" "[2, -1]"] by simp

section \<open>The driver\<close>

lemma simShutdown_counts:
  "eventCount (simShutdown s) = eventCount s"
  "endEventCount (simShutdown s) = eventCount s"
  "nextPrintEvent (simShutdown s) = eventCount s"
  by (simp_all add: simShutdown_def Let_def)

lemma event_loop_guard_false:
  assumes "\<not> eventCount s < endEventCount s"
  shows "event_loop runNextEvent silentMode outputPlugins nextPrint s = Some (Inr s)"
  using assms by (subst event_loop.simps) simp

lemma event_loop_step:
  assumes "eventCount s < endEventCount s"
    and "try_block runNextEvent silentMode outputPlugins nextPrint s = Inr (nextPrint', s')"
  shows "event_loop runNextEvent silentMode outputPlugins nextPrint s =
           event_loop runNextEvent silentMode outputPlugins nextPrint' s'"
  using assms by (subst event_loop.simps) simp

lemma event_loop_throw:
  assumes "eventCount s < endEventCount s"
    and "try_block runNextEvent silentMode outputPlugins nextPrint s = Inl e"
  shows "event_loop runNextEvent silentMode outputPlugins nextPrint s = Some (Inl (catch_handler e))"
  using assms by (subst event_loop.simps) simp

text \<open>
  Claim C7. \<^verbatim>\<open>simShutdown\<close> makes the end count equal to the event count. In every state
  \<open>s'\<close> reached after it in which the end count is still the one it set and the event count
  has not gone down (the rest of the event that is executing only counts events), the loop
  condition is false: the loop returns \<open>s'\<close> as it is, whatever \<^verbatim>\<open>runNextEvent\<close> would
  do, so \<^verbatim>\<open>runNextEvent\<close> is not called again. In particular, when the iteration that
  was executing completes in \<open>s'\<close>, the loop ends there.
\<close>

theorem simShutdown_stops_event_loop:
  assumes "endEventCount s' = endEventCount (simShutdown s)"
    and "eventCount (simShutdown s) \<le> eventCount s'"
  shows "eventCount (simShutdown s) = endEventCount (simShutdown s)
       \<and> \<not> eventCount s' < endEventCount s'
       \<and> (\<forall>runNextEvent. event_loop runNextEvent silentMode outputPlugins nextPrint s' = Some (Inr s'))
       \<and> (eventCount s0 < endEventCount s0
            \<and> try_block thisEvent silentMode outputPlugins nextPrint0 s0 = Inr (nextPrint, s')
          \<longrightarrow> event_loop thisEvent silentMode outputPlugins nextPrint0 s0 = Some (Inr s'))"
proof -
  have eq: "eventCount (simShutdown s) = endEventCount (simShutdown s)"
    by (simp add: simShutdown_counts)
  from assms have guard: "\<not> eventCount s' < endEventCount s'"
    by (simp add: simShutdown_counts not_less)
  have stop: "event_loop r silentMode outputPlugins np s' = Some (Inr s')" for r np
    by (rule event_loop_guard_false [OF guard])
  from eq guard stop show ?thesis
    by (auto simp: event_loop_step)
qed

theorem simShutdown_stops_event_loop_witness:
  "endEventCount ((simShutdown (sim_at 0))\<lparr>eventCount := 8\<rparr>) = endEventCount (simShutdown (sim_at 0))
   \<and> eventCount (simShutdown (sim_at 0)) \<le> eventCount ((simShutdown (sim_at 0))\<lparr>eventCount := 8\<rparr>)
   \<and> eventCount (sim_at 0) < endEventCount (sim_at 0)
   \<and> try_block stopping_event True [] 17 (sim_at 0) = Inr (17, (simShutdown (sim_at 0))\<lparr>eventCount := 8\<rparr>)
   \<and> event_loop stopping_event True [] 17 (sim_at 0) = Some (Inr ((simShutdown (sim_at 0))\<lparr>eventCount := 8\<rparr>))
   \<and> event_loop failing_event True [] 17 ((simShutdown (sim_at 0))\<lparr>eventCount := 8\<rparr>)
        = Some (Inr ((simShutdown (sim_at 0))\<lparr>eventCount := 8\<rparr>))"
proof -
  let ?s' = "(simShutdown (sim_at 0))\<lparr>eventCount := 8\<rparr>"
  have h1: "endEventCount ?s' = endEventCount (simShutdown (sim_at 0))" by simp
  have h2: "eventCount (simShutdown (sim_at 0)) \<le> eventCount ?s'"
    by (simp add: simShutdown_counts sim_at_def)
  have g: "eventCount (sim_at 0) < endEventCount (sim_at 0)"
    by (simp add: sim_at_def)
  have t: "try_block stopping_event True [] 17 (sim_at 0) = Inr (17, ?s')"
    by (simp add: try_block_def stopping_event_def Let_def simShutdown_counts) (simp add: sim_at_def)
  from simShutdown_stops_event_loop [OF h1 h2, of True "[]" 17 "sim_at 0" stopping_event 17] h1 h2 g t
  show ?thesis by simp
qed

text \<open>
  Claim C8, amended. If \<^verbatim>\<open>runNextEvent\<close> throws a \<^verbatim>\<open>std::exception\<close> with message
  \<open>msg\<close> inside the loop, the run ends with a new exception whose message is
  "While executing event", the event count at that moment and \<open>msg\<close>; the state is the one
  the failed event left, so the loop has not gone on and the event has not been run again.
  The message names the event by its count only. An exception that is not a
  \<^verbatim>\<open>std::exception\<close> is not caught and ends the run as it is.
\<close>

theorem failed_event_aborts_run:
  assumes "eventCount s < endEventCount s"
  shows "(runNextEvent s = Inl (std_exception msg, s') \<longrightarrow>
            event_loop runNextEvent silentMode outputPlugins nextPrint s =
              Some (Inl (std_exception
                (CHR 0x0A # ''While executing event '' @ decimal (unat (eventCount s')) @ msg), s')))
       \<and> (runNextEvent s = Inl (other_throw, s') \<longrightarrow>
            event_loop runNextEvent silentMode outputPlugins nextPrint s = Some (Inl (other_throw, s')))"
proof (intro conjI impI)
  assume "runNextEvent s = Inl (std_exception msg, s')"
  then have "try_block runNextEvent silentMode outputPlugins nextPrint s = Inl (std_exception msg, s')"
    by (simp add: try_block_def)
  from event_loop_throw [OF assms this]
  show "event_loop runNextEvent silentMode outputPlugins nextPrint s =
          Some (Inl (std_exception
            (CHR 0x0A # ''While executing event '' @ decimal (unat (eventCount s')) @ msg), s'))"
    by (simp add: M_throw_def)
next
  assume "runNextEvent s = Inl (other_throw, s')"
  then have "try_block runNextEvent silentMode outputPlugins nextPrint s = Inl (other_throw, s')"
    by (simp add: try_block_def)
  from event_loop_throw [OF assms this]
  show "event_loop runNextEvent silentMode outputPlugins nextPrint s = Some (Inl (other_throw, s'))"
    by simp
qed

lemma decimal_7: "decimal 7 = ''7''"
  by (subst decimal.simps) (simp add: digit_def)

lemma runSimulation_failing_event:
  "runSimulation failing_event [] True (sim_at t) =
     Some (Inl (std_exception (CHR 0x0A # ''While executing event 7boom''), (sim_at t)\<lparr>status := PRODUCTION\<rparr>))"
proof -
  have "event_loop failing_event True [] 17 ((sim_at t)\<lparr>status := PRODUCTION\<rparr>) =
          Some (Inl (catch_handler (std_exception ''boom'', (sim_at t)\<lparr>status := PRODUCTION\<rparr>)))"
    by (rule event_loop_throw) (simp_all add: sim_at_def try_block_def failing_event_def)
  then show ?thesis
    by (simp add: runSimulation_def Let_def M_throw_def) (simp add: sim_at_def decimal_7)
qed

theorem failed_event_aborts_run_witness:
  "eventCount (sim_at 0) < endEventCount (sim_at 0)
   \<and> failing_event (sim_at 0) = Inl (std_exception ''boom'', sim_at 0)
   \<and> event_loop failing_event True [] 17 (sim_at 0) =
       Some (Inl (std_exception (CHR 0x0A # ''While executing event 7boom''), sim_at 0))"
proof -
  have g: "eventCount (sim_at 0) < endEventCount (sim_at 0)" by (simp add: sim_at_def)
  have f: "failing_event (sim_at 0) = Inl (std_exception ''boom'', sim_at 0)"
    by (simp add: failing_event_def)
  have c: "unat (eventCount (sim_at 0)) = 7" by (simp add: sim_at_def)
  from failed_event_aborts_run [OF g, of failing_event "''boom''" "sim_at 0" True "[]" 17] g f
  show ?thesis by (simp add: c decimal_7)
qed

text \<open>
  The message does not hold the time of the event: the same event failing at system time 1
  and at system time 2 ends the run with the same message.
\<close>

theorem diagnostic_omits_event_time_counterexample:
  "diagnostic (runSimulation failing_event [] True (sim_at 1)) = Some (CHR 0x0A # ''While executing event 7boom'')
   \<and> diagnostic (runSimulation failing_event [] True (sim_at 2)) = Some (CHR 0x0A # ''While executing event 7boom'')
   \<and> dSysTime (sim_at 1) \<noteq> dSysTime (sim_at 2)"
  by (simp add: runSimulation_failing_event diagnostic_def) (simp add: sim_at_def)

end
